theory Spec2Isabelle
  imports Complex_Main "HOL-Library.Multiset" "HOL-Library.Sublist"
begin

section \<open>Modified Kruskal network builder (np.lib.network.modKruskal)\<close>

text \<open>
  A shallow embedding of \<^verbatim>\<open>VariableStore.buildNetworkFromSegments\<close>,
  \<^verbatim>\<open>buildNetworkFromNodes\<close> and \<^verbatim>\<open>generateSegments\<close>.
  Python floats are read as real numbers; Python object state (the weight of a Node, the
  subnet list of a Network) is passed explicitly.
\<close>

subsection \<open>Entities\<close>

text \<open>
  A Node object is known by its immutable identifier and coordinates; the segment factory
  hands out one object per coordinate pair. Its mutable weight lives in the store
  \<open>nodeWeight\<close> of the build state. A negative identifier marks a fake (fixed) node.
\<close>

type_synonym coordinates = "real \<times> real"

datatype node = Node (getID: int) (getCoordinates: coordinates)

datatype segment = Segment (getNodes: "node \<times> node") (getWeight: real) (is_existing: bool)

text \<open>
  Modelled from the spec: the classes Subnet and Network of \<^verbatim>\<open>np.lib.network\<close> are
  not part of the sources. A Subnet is a connected component: its member nodes together with
  the segments that were committed to it. A Network is the list \<^verbatim>\<open>net.subnets\<close>.
\<close>

record subnet =
  subnetNodes :: "node list"
  subnetSegments :: "segment list"

record network =
  subnets :: "subnet list"

text \<open>
  The state of one run of the merge loop: the weights of the Node objects, the Network, and
  the sequence of segments that were handed to \<^verbatim>\<open>net.addSegment\<close> so far.
\<close>

record build_state =
  nodeWeight :: "node \<Rightarrow> real"
  net :: network
  addSegmentCalls :: "segment list"

subsection \<open>Subnet and Network operations\<close>

text \<open>
  Modelled from the spec: \<^verbatim>\<open>Subnet.cycleNodes()\<close> enumerates the members of the
  component (the merge loop sets the weight of every node of a Subnet through it),
  \<^verbatim>\<open>Subnet.countNodes()\<close> counts its real nodes (those whose identifier is not
  negative; the pruning step compares it with the minimum node count), and
  \<^verbatim>\<open>Network.cycleSubnets()\<close> enumerates the current components.
\<close>

definition cycleNodes :: "subnet \<Rightarrow> node list" where
  "cycleNodes sn = subnetNodes sn"

definition countNodes :: "subnet \<Rightarrow> int" where
  "countNodes sn = int (length (filter (\<lambda>n. \<not> getID n < 0) (cycleNodes sn)))"

definition cycleSubnets :: "network \<Rightarrow> subnet list" where
  "cycleSubnets nw = subnets nw"

text \<open>
  Modelled from the spec: the Subnet that currently contains a node. A node that no listed
  Subnet contains is a component of its own, with no segment.
\<close>

definition getSubnet :: "network \<Rightarrow> node \<Rightarrow> subnet" where
  "getSubnet nw n =
     (case find (\<lambda>sn. n \<in> set (subnetNodes sn)) (subnets nw) of
        Some sn \<Rightarrow> sn
      | None \<Rightarrow> \<lparr>subnetNodes = [n], subnetSegments = []\<rparr>)"

text \<open>
  Modelled from the spec: \<^verbatim>\<open>Network.addSegment(segment)\<close> looks up the Subnets that
  contain the two endpoints. If they are the same Subnet the segment would close a cycle:
  the result is None and nothing changes. Otherwise the two Subnets are replaced by their
  union, which is returned. Node weights are not touched here.
\<close>

definition addSegment :: "segment \<Rightarrow> network \<Rightarrow> network \<times> subnet option" where
  "addSegment sg nw =
     (let sn1 = getSubnet nw (fst (getNodes sg));
          sn2 = getSubnet nw (snd (getNodes sg))
      in if sn1 = sn2 then (nw, None)
         else
           (let merged = \<lparr>subnetNodes = subnetNodes sn1 @ subnetNodes sn2,
                           subnetSegments = subnetSegments sn1 @ subnetSegments sn2 @ [sg]\<rparr>
            in (nw\<lparr>subnets := merged # filter (\<lambda>sn. sn \<noteq> sn1 \<and> sn \<noteq> sn2) (subnets nw)\<rparr>,
                Some merged)))"

subsection \<open>buildNetworkFromSegments\<close>

text \<open>\<^verbatim>\<open>node.setWeight(weight)\<close> for every node of a sequence.\<close>

fun setWeights :: "node list \<Rightarrow> real \<Rightarrow> (node \<Rightarrow> real) \<Rightarrow> (node \<Rightarrow> real)" where
  "setWeights [] w ws = ws"
| "setWeights (n # ns) w ws = setWeights ns w (ws(n := w))"

text \<open>The two tests of the loop body: the node can afford the segment, or it is fake.\<close>

definition node1Qualifies :: "build_state \<Rightarrow> segment \<Rightarrow> bool" where
  "node1Qualifies st sg =
     (nodeWeight st (fst (getNodes sg)) \<ge> getWeight sg \<or> getID (fst (getNodes sg)) < 0)"

definition node2Qualifies :: "build_state \<Rightarrow> segment \<Rightarrow> bool" where
  "node2Qualifies st sg =
     (nodeWeight st (snd (getNodes sg)) \<ge> getWeight sg \<or> getID (snd (getNodes sg)) < 0)"

text \<open>One iteration of the loop over the sorted segments.\<close>

definition processSegment :: "build_state \<Rightarrow> segment \<Rightarrow> build_state" where
  "processSegment st sg =
     (let n1Weight = nodeWeight st (fst (getNodes sg));
          n2Weight = nodeWeight st (snd (getNodes sg));
          sWeight = getWeight sg
      in if node1Qualifies st sg \<and> node2Qualifies st sg then
           (case addSegment sg (net st) of
              (nw, None) \<Rightarrow>
                st\<lparr>net := nw, addSegmentCalls := addSegmentCalls st @ [sg]\<rparr>
            | (nw, Some sn) \<Rightarrow>
                st\<lparr>nodeWeight := setWeights (cycleNodes sn) (n1Weight + n2Weight - sWeight)
                                     (nodeWeight st),
                   net := nw,
                   addSegmentCalls := addSegmentCalls st @ [sg]\<rparr>)
         else st)"

fun cycleSegments :: "build_state \<Rightarrow> segment list \<Rightarrow> build_state" where
  "cycleSegments st [] = st"
| "cycleSegments st (sg # rest) = cycleSegments (processSegment st sg) rest"

text \<open>
  \<^verbatim>\<open>sorted(segments, key=lambda x: x.getWeight())\<close>: Python's sort is ascending and
  stable, as is insertion by key.
\<close>

definition sortedSegments :: "segment list \<Rightarrow> segment list" where
  "sortedSegments segments = sort_key getWeight segments"

definition buildNetworkFromSegments :: "segment list \<Rightarrow> build_state \<Rightarrow> build_state" where
  "buildNetworkFromSegments segments st = cycleSegments st (sortedSegments segments)"

subsection \<open>Configuration and collaborators of generateSegments\<close>

datatype error = VariableError string | IndexError

text \<open>
  The values the variable store holds for the three variables of this module; None stands for
  a value that was not supplied, for which \<^verbatim>\<open>Variable.__init__\<close> parses the default.
\<close>

record variable_store =
  minimumNodeCountPerSubnetwork :: "int option"
  maximumNearestNeighborCount :: "int option"
  existingNetworks :: "string option"

definition get_MinimumNodeCountPerSubnetwork :: "variable_store \<Rightarrow> int" where
  "get_MinimumNodeCountPerSubnetwork vs =
     (case minimumNodeCountPerSubnetwork vs of None \<Rightarrow> 2 | Some v \<Rightarrow> v)"

definition get_MaximumNearestNeighborCount :: "variable_store \<Rightarrow> int" where
  "get_MaximumNearestNeighborCount vs =
     (case maximumNearestNeighborCount vs of None \<Rightarrow> 5 | Some v \<Rightarrow> v)"

definition get_ExistingNetworks :: "variable_store \<Rightarrow> string" where
  "get_ExistingNetworks vs =
     (case existingNetworks vs of None \<Rightarrow> [] | Some v \<Rightarrow> v)"

text \<open>
  The two distance functions of \<^verbatim>\<open>np.lib.network\<close> are only compared and handed on
  here, so they are tags.
\<close>

datatype distance_function = computeEuclideanDistance | computeSphericalDistance

text \<open>
  What generateSegments obtains from code outside this module: whether the archive exists
  and holds a shapefile, the coordinate pairs of the existing network and their
  reprojection, \<^verbatim>\<open>segmentFactory.getSegment\<close>, \<^verbatim>\<open>net.project\<close>, and the
  metrics of the two kd-trees.
\<close>

record environment =
  archiveExists :: bool
  shapefileFound :: bool
  networkCoordinatePairs :: "(coordinates \<times> coordinates) list"
  transform_point :: "real \<Rightarrow> real \<Rightarrow> coordinates"
  getSegment :: "distance_function \<Rightarrow> coordinates \<Rightarrow> coordinates \<Rightarrow> bool \<Rightarrow> segment"
  project :: "network \<Rightarrow> node list \<Rightarrow> segment list"
  planarMetric :: "coordinates \<Rightarrow> coordinates \<Rightarrow> real"
  arcMetric :: "real \<Rightarrow> coordinates \<Rightarrow> coordinates \<Rightarrow> real"

text \<open>
  Modelled from the spec: \<^verbatim>\<open>SegmentFactory.getNodes()\<close> is the node set of the input,
  deduplicated by coordinate (the first node at a coordinate pair is the canonical one).
\<close>

primrec dedupNodes :: "coordinates list \<Rightarrow> node list \<Rightarrow> node list" where
  "dedupNodes seen [] = []"
| "dedupNodes seen (n # ns) =
     (if getCoordinates n \<in> set seen then dedupNodes seen ns
      else n # dedupNodes (getCoordinates n # seen) ns)"

definition factory_getNodes :: "node list \<Rightarrow> node list" where
  "factory_getNodes nodes = dedupNodes [] nodes"

text \<open>
  Modelled from the spec: a new Network starts with every real node in a singleton Subnet
  of its own; \<^verbatim>\<open>Subnet(segments)\<close> is the component made of the given segments and
  their endpoints.
\<close>

definition Network :: "node list \<Rightarrow> network" where
  "Network nodes = \<lparr>subnets = map (\<lambda>n. \<lparr>subnetNodes = [n], subnetSegments = []\<rparr>) nodes\<rparr>"

definition Subnet :: "segment list \<Rightarrow> subnet" where
  "Subnet segments =
     \<lparr>subnetNodes = remdups (concat (map (\<lambda>sg. [fst (getNodes sg), snd (getNodes sg)]) segments)),
      subnetSegments = segments\<rparr>"

text \<open>
  Modelled from the spec: the nearest-neighbour query of the spatial index,
  \<^verbatim>\<open>kdTree.query(point, k)[1]\<close>. It yields the indices of the \<open>k\<close> nodes nearest to
  the point, nearest first; when \<open>k\<close> exceeds the number of nodes it yields all of them.
\<close>

definition kNearest ::
  "(coordinates \<Rightarrow> coordinates \<Rightarrow> real) \<Rightarrow> coordinates list \<Rightarrow> coordinates \<Rightarrow> int \<Rightarrow> nat list" where
  "kNearest metric matrix point k =
     take (nat k) (sort_key (\<lambda>i. metric point (matrix ! i)) [0..<length matrix])"

text \<open>
  \<^verbatim>\<open>networkNodeMatrix[nodeIndices]\<close>: selecting rows by a sequence of indices raises
  IndexError when an index is not a row of the matrix.
\<close>

definition selectRows :: "coordinates list \<Rightarrow> nat list \<Rightarrow> error + coordinates list" where
  "selectRows matrix nodeIndices =
     (if \<forall>i \<in> set nodeIndices. i < length matrix
      then Inr (map (\<lambda>i. matrix ! i) nodeIndices) else Inl IndexError)"

subsection \<open>generateSegments\<close>

text \<open>The loop over the nodes that adds a candidate to each nearest neighbour.\<close>

fun nearestNeighborSegments ::
  "(coordinates \<Rightarrow> nat list) \<Rightarrow> (coordinates \<Rightarrow> coordinates \<Rightarrow> segment) \<Rightarrow> coordinates list \<Rightarrow>
   node list \<Rightarrow> error + segment list" where
  "nearestNeighborSegments get_nearestNeighbors mkSegment networkNodeMatrix [] = Inr []"
| "nearestNeighborSegments get_nearestNeighbors mkSegment networkNodeMatrix (node1 # rest) =
     (case selectRows networkNodeMatrix (get_nearestNeighbors (getCoordinates node1)) of
        Inl e \<Rightarrow> Inl e
      | Inr rows \<Rightarrow>
          (case nearestNeighborSegments get_nearestNeighbors mkSegment networkNodeMatrix rest of
             Inl e \<Rightarrow> Inl e
           | Inr others \<Rightarrow>
               Inr (map (\<lambda>node2Coordinates. mkSegment (getCoordinates node1) node2Coordinates) rows
                    @ others)))"

text \<open>The branch that loads the existing networks, when a path is configured.\<close>

definition loadExistingNetworks ::
  "variable_store \<Rightarrow> environment \<Rightarrow> distance_function \<Rightarrow> node list \<Rightarrow> network \<Rightarrow>
   error + (segment list \<times> network)" where
  "loadExistingNetworks vs env computeDistance networkNodes nw =
     (if get_ExistingNetworks vs \<noteq> [] then
        (if \<not> archiveExists env then
           Inl (VariableError ''Expected ZIP archive containing shapefile for existing networks'')
         else if \<not> shapefileFound env then
           Inl (VariableError ''Could not find shapefile in ZIP archive for existing networks'')
         else
           (let nw' = nw\<lparr>subnets := subnets nw @
                  [Subnet (map (\<lambda>(c1, c2). getSegment env computeDistance
                                   (transform_point env (fst c1) (snd c1))
                                   (transform_point env (fst c2) (snd c2)) True)
                               (networkCoordinatePairs env))]\<rparr>
            in Inr (project env nw' networkNodes, nw')))
      else Inr ([], nw))"

definition generateSegments ::
  "variable_store \<Rightarrow> environment \<Rightarrow> node list \<Rightarrow> distance_function \<Rightarrow>
   error + (segment list \<times> network)" where
  "generateSegments vs env nodes computeDistance =
     (let networkNodes = factory_getNodes nodes
      in case loadExistingNetworks vs env computeDistance networkNodes (Network networkNodes) of
           Inl e \<Rightarrow> Inl e
         | Inr (segments, nw) \<Rightarrow>
             (let networkNodeMatrix = map getCoordinates networkNodes;
                  metric = (if computeDistance = computeEuclideanDistance then planarMetric env
                            else arcMetric env 6371010);
                  get_nearestNeighbors =
                    (\<lambda>point. kNearest metric networkNodeMatrix point
                                (get_MaximumNearestNeighborCount vs))
              in case nearestNeighborSegments get_nearestNeighbors
                        (\<lambda>c1 c2. getSegment env computeDistance c1 c2 False)
                        networkNodeMatrix networkNodes of
                   Inl e \<Rightarrow> Inl e
                 | Inr others \<Rightarrow> Inr (segments @ others, nw)))"

subsection \<open>buildNetworkFromNodes\<close>

text \<open>The loop that keeps the subnets with enough real nodes.\<close>

fun keepSubnets :: "int \<Rightarrow> subnet list \<Rightarrow> subnet list \<Rightarrow> subnet list" where
  "keepSubnets minimum [] kept = kept"
| "keepSubnets minimum (sn # rest) kept =
     keepSubnets minimum rest (if countNodes sn \<ge> minimum then kept @ [sn] else kept)"

definition eliminateSubnets :: "int \<Rightarrow> network \<Rightarrow> network" where
  "eliminateSubnets minimum nw = nw\<lparr>subnets := keepSubnets minimum (cycleSubnets nw) []\<rparr>"

definition selectDistance :: "string \<Rightarrow> distance_function" where
  "selectDistance proj4 =
     (if sublist ''+units=m'' proj4 then computeEuclideanDistance else computeSphericalDistance)"

definition buildNetworkFromNodes ::
  "variable_store \<Rightarrow> environment \<Rightarrow> (node \<Rightarrow> real) \<Rightarrow> node list \<Rightarrow> string \<Rightarrow> error + build_state" where
  "buildNetworkFromNodes vs env weights nodes proj4 =
     (case generateSegments vs env nodes (selectDistance proj4) of
        Inl e \<Rightarrow> Inl e
      | Inr (segments, nw) \<Rightarrow>
          (let st = buildNetworkFromSegments segments
                      \<lparr>nodeWeight = weights, net = nw, addSegmentCalls = []\<rparr>
           in Inr (st\<lparr>net := eliminateSubnets (get_MinimumNodeCountPerSubnetwork vs) (net st)\<rparr>)))"

subsection \<open>Well-formed networks\<close>

text \<open>
  The Subnets of a Network are disjoint components: no node is listed twice.
\<close>

definition wellFormed :: "network \<Rightarrow> bool" where
  "wellFormed nw = distinct (concat (map subnetNodes (subnets nw)))"

text \<open>Weight homogeneity: the nodes of each Subnet hold one weight.\<close>

definition homogeneous :: "build_state \<Rightarrow> bool" where
  "homogeneous st =
     (\<forall>sn \<in> set (subnets (net st)).
        \<forall>a \<in> set (cycleNodes sn). \<forall>b \<in> set (cycleNodes sn). nodeWeight st a = nodeWeight st b)"

subsection \<open>A small scenario\<close>

text \<open>
  Three demand nodes in a row with weight 10, an isolated demand node with weight 1, and a
  fake node of an existing network with weight 0.
\<close>

definition nodeA :: node where "nodeA = Node 1 (0, 0)"
definition nodeB :: node where "nodeB = Node 2 (1, 0)"
definition nodeC :: node where "nodeC = Node 3 (2, 0)"
definition nodeD :: node where "nodeD = Node 4 (10, 10)"
definition nodeF :: node where "nodeF = Node (- 1) (0, 5)"

definition scenarioWeights :: "node \<Rightarrow> real" where
  "scenarioWeights n = (if n = nodeD then 1 else if n = nodeF then 0 else 10)"

definition segmentAB :: segment where "segmentAB = Segment (nodeA, nodeB) 1 False"
definition segmentBC :: segment where "segmentBC = Segment (nodeB, nodeC) 1 False"
definition segmentCD :: segment where "segmentCD = Segment (nodeC, nodeD) 13 False"
definition segmentFD :: segment where "segmentFD = Segment (nodeF, nodeD) 5 False"

definition scenarioState :: build_state where
  "scenarioState =
     \<lparr>nodeWeight = scenarioWeights, net = Network [nodeA, nodeB, nodeC, nodeD],
      addSegmentCalls = []\<rparr>"


text \<open>
  Collaborators for the scenario: no existing network, segments weighted by the rectilinear
  distance between their endpoints, which is also the metric of the spatial index.
\<close>

definition rectilinear :: "coordinates \<Rightarrow> coordinates \<Rightarrow> real" where
  "rectilinear p q = \<bar>fst p - fst q\<bar> + \<bar>snd p - snd q\<bar>"

definition scenarioNodeAt :: "coordinates \<Rightarrow> node" where
  "scenarioNodeAt c =
     (if c = (0, 0) then nodeA else if c = (1, 0) then nodeB else if c = (2, 0) then nodeC
      else if c = (10, 10) then nodeD else Node (- 1) c)"

definition scenarioEnvironment :: environment where
  "scenarioEnvironment =
     \<lparr>archiveExists = False, shapefileFound = False, networkCoordinatePairs = [],
      transform_point = (\<lambda>x y. (x, y)),
      getSegment = (\<lambda>computeDistance c1 c2 existing.
         Segment (scenarioNodeAt c1, scenarioNodeAt c2) (rectilinear c1 c2) existing),
      project = (\<lambda>nw nodes. []),
      planarMetric = rectilinear, arcMetric = (\<lambda>radius. rectilinear)\<rparr>"

definition scenarioStore :: variable_store where
  "scenarioStore = \<lparr>minimumNodeCountPerSubnetwork = None, maximumNearestNeighborCount = None,
                     existingNetworks = None\<rparr>"


definition scenarioBuilt :: build_state where
  "scenarioBuilt =
     \<lparr>nodeWeight = scenarioWeights(nodeA := 19, nodeB := 19),
      net = \<lparr>subnets = [\<lparr>subnetNodes = [nodeA, nodeB],
                            subnetSegments = [Segment (nodeA, nodeB) 1 False]\<rparr>,
                         \<lparr>subnetNodes = [nodeD], subnetSegments = []\<rparr>]\<rparr>,
      addSegmentCalls = [Segment (nodeA, nodeA) 0 False, Segment (nodeB, nodeB) 0 False,
         Segment (nodeD, nodeD) 0 False, Segment (nodeA, nodeB) 1 False,
         Segment (nodeB, nodeA) 1 False]\<rparr>"




section \<open>Properties\<close>

subsection \<open>Auxiliary facts\<close>

lemma setWeights_apply:
  "setWeights ns w ws n = (if n \<in> set ns then w else ws n)"
  by (induction ns arbitrary: ws) auto


lemma processSegment_discard:
  "\<not> (node1Qualifies st sg \<and> node2Qualifies st sg) \<Longrightarrow> processSegment st sg = st"
  by (auto simp: processSegment_def Let_def)


lemma getSubnet_member: "n \<in> set (subnetNodes (getSubnet nw n))"
  by (auto simp: getSubnet_def find_Some_iff split: option.splits)

lemma addSegment_None: "addSegment sg nw = (nw', None) \<Longrightarrow> nw' = nw"
  by (auto simp: addSegment_def Let_def split: if_splits)

lemma addSegment_Some:
  assumes "addSegment sg nw = (nw', Some merged)"
  shows "getSubnet nw (fst (getNodes sg)) \<noteq> getSubnet nw (snd (getNodes sg))"
    and "subnetNodes merged = subnetNodes (getSubnet nw (fst (getNodes sg)))
                               @ subnetNodes (getSubnet nw (snd (getNodes sg)))"
    and "subnets nw' = merged # filter (\<lambda>sn. sn \<noteq> getSubnet nw (fst (getNodes sg))
                                           \<and> sn \<noteq> getSubnet nw (snd (getNodes sg))) (subnets nw)"
  using assms by (auto simp: addSegment_def Let_def split: if_splits)

lemma processSegment_unmerged:
  assumes "\<not> (node1Qualifies st sg \<and> node2Qualifies st sg) \<or> snd (addSegment sg (net st)) = None"
  shows "nodeWeight (processSegment st sg) = nodeWeight st \<and> net (processSegment st sg) = net st"
proof (cases "node1Qualifies st sg \<and> node2Qualifies st sg")
  case False
  then show ?thesis by (simp add: processSegment_discard)
next
  case True
  with assms have "snd (addSegment sg (net st)) = None" by blast
  then obtain nw where nw: "addSegment sg (net st) = (nw, None)"
    by (cases "addSegment sg (net st)") auto
  then have "nw = net st" by (rule addSegment_None)
  with nw True show ?thesis by (simp add: processSegment_def Let_def)
qed

lemma processSegment_merge:
  assumes "node1Qualifies st sg" and "node2Qualifies st sg"
    and "addSegment sg (net st) = (nw, Some merged)"
  shows "nodeWeight (processSegment st sg) =
           setWeights (cycleNodes merged)
             (nodeWeight st (fst (getNodes sg)) + nodeWeight st (snd (getNodes sg)) - getWeight sg)
             (nodeWeight st)"
    and "net (processSegment st sg) = nw"
  using assms by (simp_all add: processSegment_def Let_def)

lemma processSegment_cases:
  obtains (same) "nodeWeight (processSegment st sg) = nodeWeight st"
                 "net (processSegment st sg) = net st"
  | (merge) nw merged where "node1Qualifies st sg" "node2Qualifies st sg"
      "addSegment sg (net st) = (nw, Some merged)"
proof (cases "node1Qualifies st sg \<and> node2Qualifies st sg")
  case False
  then show ?thesis using same by (simp add: processSegment_discard)
next
  case True
  obtain nw r where add: "addSegment sg (net st) = (nw, r)"
    by (cases "addSegment sg (net st)")
  show ?thesis
  proof (cases r)
    case None
    with add have "snd (addSegment sg (net st)) = None" by simp
    then have "nodeWeight (processSegment st sg) = nodeWeight st
        \<and> net (processSegment st sg) = net st"
      by (intro processSegment_unmerged) simp
    then show ?thesis using same by blast
  next
    case (Some merged)
    with add True show ?thesis using merge by blast
  qed
qed

subsection \<open>The scenario, evaluated\<close>

lemma scenario_simps:
  "nodeA \<noteq> nodeB" "nodeA \<noteq> nodeC" "nodeA \<noteq> nodeD" "nodeA \<noteq> nodeF"
  "nodeB \<noteq> nodeA" "nodeB \<noteq> nodeC" "nodeB \<noteq> nodeD" "nodeB \<noteq> nodeF"
  "nodeC \<noteq> nodeA" "nodeC \<noteq> nodeB" "nodeC \<noteq> nodeD" "nodeC \<noteq> nodeF"
  "nodeD \<noteq> nodeA" "nodeD \<noteq> nodeB" "nodeD \<noteq> nodeC" "nodeD \<noteq> nodeF"
  "nodeF \<noteq> nodeA" "nodeF \<noteq> nodeB" "nodeF \<noteq> nodeC" "nodeF \<noteq> nodeD"
  "getID nodeA = 1" "getID nodeB = 2" "getID nodeC = 3" "getID nodeD = 4" "getID nodeF = - 1"
  by (simp_all add: nodeA_def nodeB_def nodeC_def nodeD_def nodeF_def)

lemma scenario_wellFormed: "wellFormed (net scenarioState)"
  by (simp add: wellFormed_def scenarioState_def Network_def scenario_simps)

lemma scenario_homogeneous: "homogeneous scenarioState"
  by (simp add: homogeneous_def scenarioState_def Network_def cycleNodes_def)

lemma scenario_addSegment_AB:
  "addSegment segmentAB (net scenarioState) =
     (\<lparr>subnets = [\<lparr>subnetNodes = [nodeA, nodeB], subnetSegments = [segmentAB]\<rparr>,
                  \<lparr>subnetNodes = [nodeC], subnetSegments = []\<rparr>,
                  \<lparr>subnetNodes = [nodeD], subnetSegments = []\<rparr>]\<rparr>,
      Some \<lparr>subnetNodes = [nodeA, nodeB], subnetSegments = [segmentAB]\<rparr>)"
  by (simp add: addSegment_def getSubnet_def scenarioState_def Network_def segmentAB_def
      scenario_simps Let_def)







subsection \<open>The merge loop\<close>



text \<open>
  C2. When both endpoints of a segment qualify and addSegment returns a merged Subnet, every
  node of that Subnet is given the weight wA + wB - wS, where wA and wB are the weights of
  the two endpoints before the merge and wS is the weight of the segment.
\<close>

theorem merged_subnet_weight:
  assumes "node1Qualifies st sg" and "node2Qualifies st sg"
    and "addSegment sg (net st) = (nw, Some merged)"
  shows "\<forall>n \<in> set (cycleNodes merged).
           nodeWeight (processSegment st sg) n =
             nodeWeight st (fst (getNodes sg)) + nodeWeight st (snd (getNodes sg)) - getWeight sg"
  using assms by (simp add: processSegment_def Let_def setWeights_apply)

theorem merged_subnet_weight_witness:
  "node1Qualifies scenarioState segmentAB \<and> node2Qualifies scenarioState segmentAB
   \<and> snd (addSegment segmentAB (net scenarioState))
       = Some \<lparr>subnetNodes = [nodeA, nodeB], subnetSegments = [segmentAB]\<rparr>
   \<and> nodeWeight (processSegment scenarioState segmentAB) nodeA = 10 + 10 - 1
   \<and> nodeWeight (processSegment scenarioState segmentAB) nodeB = 10 + 10 - 1"
proof -
  have q1: "node1Qualifies scenarioState segmentAB"
    by (simp add: node1Qualifies_def scenarioState_def scenarioWeights_def segmentAB_def
        scenario_simps)
  have q2: "node2Qualifies scenarioState segmentAB"
    by (simp add: node2Qualifies_def scenarioState_def scenarioWeights_def segmentAB_def
        scenario_simps)
  have a: "snd (addSegment segmentAB (net scenarioState))
       = Some \<lparr>subnetNodes = [nodeA, nodeB], subnetSegments = [segmentAB]\<rparr>"
    by (simp add: scenario_addSegment_AB)
  have w: "nodeWeight scenarioState (fst (getNodes segmentAB))
         + nodeWeight scenarioState (snd (getNodes segmentAB)) - getWeight segmentAB = 10 + 10 - 1"
    by (simp add: scenarioState_def scenarioWeights_def segmentAB_def scenario_simps)
  from merged_subnet_weight [OF q1 q2 scenario_addSegment_AB]
  have "nodeWeight (processSegment scenarioState segmentAB) nodeA = 10 + 10 - 1"
    and "nodeWeight (processSegment scenarioState segmentAB) nodeB = 10 + 10 - 1"
    unfolding w by (simp_all add: cycleNodes_def)
  with q1 q2 a show ?thesis by blast
qed

subsection \<open>Disjoint components\<close>

lemma find_filter_same:
  "(\<And>x. x \<in> set xs \<Longrightarrow> P x \<Longrightarrow> Q x) \<Longrightarrow> find P (filter Q xs) = find P xs"
  by (induction xs) auto

lemma distinct_concat_disjoint:
  "distinct (concat (map f xs)) \<Longrightarrow> a \<in> set xs \<Longrightarrow> b \<in> set xs \<Longrightarrow> a \<noteq> b
     \<Longrightarrow> set (f a) \<inter> set (f b) = {}"
  by (induction xs) auto

lemma distinct_concat_member:
  "distinct (concat (map f xs)) \<Longrightarrow> a \<in> set xs \<Longrightarrow> distinct (f a)"
  by (induction xs) auto

lemma distinct_concat_filter:
  "distinct (concat (map f xs)) \<Longrightarrow> distinct (concat (map f (filter Q xs)))"
  by (induction xs) auto

lemma getSubnet_cases:
  obtains (listed) "getSubnet nw n \<in> set (subnets nw)"
  | (fresh) "\<forall>sn \<in> set (subnets nw). n \<notin> set (subnetNodes sn)"
            "getSubnet nw n = \<lparr>subnetNodes = [n], subnetSegments = []\<rparr>"
proof (cases "find (\<lambda>sn. n \<in> set (subnetNodes sn)) (subnets nw)")
  case None
  then have "getSubnet nw n = \<lparr>subnetNodes = [n], subnetSegments = []\<rparr>"
    by (simp add: getSubnet_def)
  moreover from None have "\<forall>sn \<in> set (subnets nw). n \<notin> set (subnetNodes sn)"
    by (simp add: find_None_iff)
  ultimately show ?thesis using fresh by blast
next
  case (Some sn)
  then have "sn \<in> set (subnets nw)" by (auto simp: find_Some_iff)
  with Some show ?thesis using listed by (simp add: getSubnet_def)
qed

lemma getSubnet_disjoint_listed:
  assumes "wellFormed nw" and "sn \<in> set (subnets nw)" and "sn \<noteq> getSubnet nw n"
  shows "set (subnetNodes (getSubnet nw n)) \<inter> set (subnetNodes sn) = {}"
proof (cases rule: getSubnet_cases [of nw n])
  case listed
  from assms(1) have "distinct (concat (map subnetNodes (subnets nw)))"
    by (simp add: wellFormed_def)
  from distinct_concat_disjoint [OF this listed assms(2)] assms(3) show ?thesis by simp
next
  case fresh
  with assms(2) show ?thesis by simp
qed

lemma getSubnet_distinct:
  assumes "wellFormed nw"
  shows "distinct (subnetNodes (getSubnet nw n))"
proof (cases rule: getSubnet_cases [of nw n])
  case listed
  from assms have "distinct (concat (map subnetNodes (subnets nw)))"
    by (simp add: wellFormed_def)
  from distinct_concat_member [OF this listed] show ?thesis .
next
  case fresh
  then show ?thesis by simp
qed

lemma getSubnet_disjoint:
  assumes "wellFormed nw" and "getSubnet nw a \<noteq> getSubnet nw b"
  shows "set (subnetNodes (getSubnet nw a)) \<inter> set (subnetNodes (getSubnet nw b)) = {}"
proof (cases rule: getSubnet_cases [of nw b])
  case listed
  from getSubnet_disjoint_listed [OF assms(1) listed] assms(2) show ?thesis by simp
next
  case fb: fresh
  show ?thesis
  proof (cases rule: getSubnet_cases [of nw a])
    case listed
    from getSubnet_disjoint_listed [OF assms(1) listed, of b] assms(2) show ?thesis
      by (simp add: Int_commute)
  next
    case fresh
    with fb assms(2) show ?thesis by auto
  qed
qed

lemma getSubnet_of_listed:
  assumes "wellFormed nw" and "sn \<in> set (subnets nw)" and "n \<in> set (subnetNodes sn)"
  shows "getSubnet nw n = sn"
proof (rule ccontr)
  assume "getSubnet nw n \<noteq> sn"
  then have "sn \<noteq> getSubnet nw n" by simp
  from getSubnet_disjoint_listed [OF assms(1,2) this]
  have "set (subnetNodes (getSubnet nw n)) \<inter> set (subnetNodes sn) = {}" .
  with assms(3) getSubnet_member [of n nw] show False by blast
qed

lemma getSubnet_after_merge:
  assumes add: "addSegment sg nw = (nw', Some merged)"
  shows "n \<in> set (subnetNodes merged) \<Longrightarrow> getSubnet nw' n = merged"
    and "n \<notin> set (subnetNodes merged) \<Longrightarrow> getSubnet nw' n = getSubnet nw n"
proof -
  define sn1 where "sn1 = getSubnet nw (fst (getNodes sg))"
  define sn2 where "sn2 = getSubnet nw (snd (getNodes sg))"
  have m: "subnetNodes merged = subnetNodes sn1 @ subnetNodes sn2"
    and s: "subnets nw' = merged # filter (\<lambda>sn. sn \<noteq> sn1 \<and> sn \<noteq> sn2) (subnets nw)"
    using addSegment_Some [OF add] by (simp_all add: sn1_def sn2_def)
  show "n \<in> set (subnetNodes merged) \<Longrightarrow> getSubnet nw' n = merged"
    by (simp add: getSubnet_def s)
  assume out: "n \<notin> set (subnetNodes merged)"
  have "find (\<lambda>sn. n \<in> set (subnetNodes sn)) (filter (\<lambda>sn. sn \<noteq> sn1 \<and> sn \<noteq> sn2) (subnets nw))
      = find (\<lambda>sn. n \<in> set (subnetNodes sn)) (subnets nw)"
  proof (rule find_filter_same)
    fix x assume "x \<in> set (subnets nw)" and "n \<in> set (subnetNodes x)"
    with out show "x \<noteq> sn1 \<and> x \<noteq> sn2" by (auto simp: m)
  qed
  with out show "getSubnet nw' n = getSubnet nw n"
    by (simp add: getSubnet_def s)
qed

lemma addSegment_wellFormed:
  assumes wf: "wellFormed nw" and add: "addSegment sg nw = (nw', r)"
  shows "wellFormed nw'"
proof (cases r)
  case None
  with add have "nw' = nw" by (simp add: addSegment_None)
  with wf show ?thesis by simp
next
  case (Some merged)
  define sn1 where "sn1 = getSubnet nw (fst (getNodes sg))"
  define sn2 where "sn2 = getSubnet nw (snd (getNodes sg))"
  define others where "others = filter (\<lambda>sn. sn \<noteq> sn1 \<and> sn \<noteq> sn2) (subnets nw)"
  from add Some have add': "addSegment sg nw = (nw', Some merged)" by simp
  have ne: "sn1 \<noteq> sn2"
    and m: "subnetNodes merged = subnetNodes sn1 @ subnetNodes sn2"
    and s: "subnets nw' = merged # others"
    using addSegment_Some [OF add'] by (simp_all add: sn1_def sn2_def others_def)
  have d1: "distinct (subnetNodes sn1)" and d2: "distinct (subnetNodes sn2)"
    using wf by (simp_all add: sn1_def sn2_def getSubnet_distinct)
  have d12: "set (subnetNodes sn1) \<inter> set (subnetNodes sn2) = {}"
    using wf ne unfolding sn1_def sn2_def by (rule getSubnet_disjoint)
  have d3: "distinct (concat (map subnetNodes others))"
    using wf unfolding wellFormed_def others_def by (rule distinct_concat_filter)
  have d4: "x \<notin> set (subnetNodes sn1) \<and> x \<notin> set (subnetNodes sn2)"
    if "x \<in> set (concat (map subnetNodes others))" for x
  proof -
    from that obtain sn where sn: "sn \<in> set others" "x \<in> set (subnetNodes sn)" by auto
    then have l: "sn \<in> set (subnets nw)" and n1: "sn \<noteq> sn1" and n2: "sn \<noteq> sn2"
      by (simp_all add: others_def)
    have "set (subnetNodes sn1) \<inter> set (subnetNodes sn) = {}"
      using getSubnet_disjoint_listed [OF wf l] n1 unfolding sn1_def by blast
    moreover have "set (subnetNodes sn2) \<inter> set (subnetNodes sn) = {}"
      using getSubnet_disjoint_listed [OF wf l] n2 unfolding sn2_def by blast
    ultimately show ?thesis using sn(2) by blast
  qed
  have "distinct (subnetNodes sn1 @ subnetNodes sn2 @ concat (map subnetNodes others))"
    using d1 d2 d12 d3 d4 by (simp only: distinct_append set_append) blast
  then show ?thesis by (simp add: wellFormed_def s m)
qed

lemma processSegment_wellFormed:
  assumes "wellFormed (net st)"
  shows "wellFormed (net (processSegment st sg))"
proof (cases rule: processSegment_cases [of st sg])
  case same
  with assms show ?thesis by simp
next
  case (merge nw merged)
  from addSegment_wellFormed [OF assms merge(3)] processSegment_merge(2) [OF merge]
  show ?thesis by simp
qed

lemma cycleSegments_wellFormed:
  "wellFormed (net st) \<Longrightarrow> wellFormed (net (cycleSegments st xs))"
proof (induction xs arbitrary: st)
  case Nil
  then show ?case by simp
next
  case (Cons sg xs)
  from Cons.IH [OF processSegment_wellFormed [OF Cons.prems]] show ?case by simp
qed

subsection \<open>Invariants of the merge loop\<close>

lemma processSegment_homogeneous:
  assumes wf: "wellFormed (net st)" and hom: "homogeneous st"
  shows "homogeneous (processSegment st sg)"
proof (cases rule: processSegment_cases [of st sg])
  case same
  show ?thesis using hom unfolding homogeneous_def same .
next
  case (merge nw merged)
  define w where
    "w = nodeWeight st (fst (getNodes sg)) + nodeWeight st (snd (getNodes sg)) - getWeight sg"
  define sn1 where "sn1 = getSubnet (net st) (fst (getNodes sg))"
  define sn2 where "sn2 = getSubnet (net st) (snd (getNodes sg))"
  have st': "nodeWeight (processSegment st sg) = setWeights (cycleNodes merged) w (nodeWeight st)"
    "net (processSegment st sg) = nw"
    using processSegment_merge [OF merge] by (simp_all add: w_def)
  have m: "subnetNodes merged = subnetNodes sn1 @ subnetNodes sn2"
    and s: "subnets nw = merged # filter (\<lambda>sn. sn \<noteq> sn1 \<and> sn \<noteq> sn2) (subnets (net st))"
    using addSegment_Some [OF merge(3)] by (simp_all add: sn1_def sn2_def)
  have "nodeWeight (processSegment st sg) a = nodeWeight (processSegment st sg) b"
    if sn: "sn \<in> set (subnets nw)" and a: "a \<in> set (cycleNodes sn)" and b: "b \<in> set (cycleNodes sn)"
    for sn a b
  proof (cases "sn = merged")
    case True
    with a b show ?thesis by (simp add: st' setWeights_apply)
  next
    case False
    with sn s have old: "sn \<in> set (subnets (net st))" and n1: "sn \<noteq> sn1" and n2: "sn \<noteq> sn2"
      by simp_all
    have "set (subnetNodes sn1) \<inter> set (subnetNodes sn) = {}"
      using getSubnet_disjoint_listed [OF wf old] n1 unfolding sn1_def by blast
    moreover have "set (subnetNodes sn2) \<inter> set (subnetNodes sn) = {}"
      using getSubnet_disjoint_listed [OF wf old] n2 unfolding sn2_def by blast
    ultimately have "a \<notin> set (cycleNodes merged)" "b \<notin> set (cycleNodes merged)"
      using a b by (auto simp: cycleNodes_def m)
    then have "nodeWeight (processSegment st sg) a = nodeWeight st a"
      "nodeWeight (processSegment st sg) b = nodeWeight st b"
      by (simp_all add: st' setWeights_apply)
    moreover from hom old a b have "nodeWeight st a = nodeWeight st b"
      unfolding homogeneous_def by blast
    ultimately show ?thesis by simp
  qed
  then show ?thesis unfolding homogeneous_def st'(2) by blast
qed

lemma cycleSegments_homogeneous:
  "wellFormed (net st) \<Longrightarrow> homogeneous st \<Longrightarrow> homogeneous (cycleSegments st xs)"
proof (induction xs arbitrary: st)
  case Nil
  then show ?case by simp
next
  case (Cons sg xs)
  from Cons.prems have "wellFormed (net (processSegment st sg))"
    and "homogeneous (processSegment st sg)"
    by (simp_all only: processSegment_wellFormed processSegment_homogeneous)
  from Cons.IH [OF this] show ?case by simp
qed

text \<open>
  C3. Weight homogeneity is an invariant of the merge loop. If, on entry to
  buildNetworkFromSegments, the Subnets are disjoint components and the nodes of each
  Subnet hold one weight, then after each candidate segment is processed (so after every
  merge, and when the loop ends) the nodes of each Subnet still hold one weight.
\<close>

theorem weight_homogeneity_invariant:
  assumes "wellFormed (net st)" and "homogeneous st"
  shows "(\<forall>pre. prefix pre (sortedSegments segments) \<longrightarrow> homogeneous (cycleSegments st pre))
       \<and> homogeneous (buildNetworkFromSegments segments st)"
  using cycleSegments_homogeneous [OF assms] by (simp add: buildNetworkFromSegments_def)

theorem weight_homogeneity_invariant_witness:
  "wellFormed (net scenarioState) \<and> homogeneous scenarioState
   \<and> homogeneous (buildNetworkFromSegments [segmentCD, segmentBC, segmentAB] scenarioState)"
  using weight_homogeneity_invariant [OF scenario_wellFormed scenario_homogeneous,
      of "[segmentCD, segmentBC, segmentAB]"]
    scenario_wellFormed scenario_homogeneous
  by blast

lemma processSegment_negative_fixed:
  assumes inv: "\<forall>n. nodeWeight st n < 0 \<longrightarrow>
                  (\<exists>f \<in> set (cycleNodes (getSubnet (net st) n)). getID f < 0)"
    and pos: "0 \<le> getWeight sg"
  shows "\<forall>n. nodeWeight (processSegment st sg) n < 0 \<longrightarrow>
           (\<exists>f \<in> set (cycleNodes (getSubnet (net (processSegment st sg)) n)). getID f < 0)"
proof (cases rule: processSegment_cases [of st sg])
  case same
  show ?thesis using inv unfolding same .
next
  case (merge nw merged)
  define n1 where "n1 = fst (getNodes sg)"
  define n2 where "n2 = snd (getNodes sg)"
  define w where "w = nodeWeight st n1 + nodeWeight st n2 - getWeight sg"
  have st': "nodeWeight (processSegment st sg) = setWeights (cycleNodes merged) w (nodeWeight st)"
    "net (processSegment st sg) = nw"
    using processSegment_merge [OF merge] by (simp_all add: w_def n1_def n2_def)
  have m: "subnetNodes merged
         = subnetNodes (getSubnet (net st) n1) @ subnetNodes (getSubnet (net st) n2)"
    using addSegment_Some(2) [OF merge(3)] by (simp add: n1_def n2_def)
  have ends: "n1 \<in> set (subnetNodes merged)" "n2 \<in> set (subnetNodes merged)"
    using getSubnet_member [of n1 "net st"] getSubnet_member [of n2 "net st"] by (simp_all add: m)
  have fixed_if_neg: "\<exists>f \<in> set (subnetNodes merged). getID f < 0" if "w < 0"
  proof (rule ccontr)
    assume "\<not> (\<exists>f \<in> set (subnetNodes merged). getID f < 0)"
    with ends have "\<not> getID n1 < 0" "\<not> getID n2 < 0" by blast+
    with merge(1,2) have "getWeight sg \<le> nodeWeight st n1" "getWeight sg \<le> nodeWeight st n2"
      by (simp_all add: node1Qualifies_def node2Qualifies_def n1_def n2_def)
    with pos have "0 \<le> w" by (simp add: w_def)
    with that show False by simp
  qed
  show ?thesis
  proof (intro allI impI)
    fix n assume neg: "nodeWeight (processSegment st sg) n < 0"
    show "\<exists>f \<in> set (cycleNodes (getSubnet (net (processSegment st sg)) n)). getID f < 0"
    proof (cases "n \<in> set (subnetNodes merged)")
      case True
      with neg have "w < 0" by (simp add: st' setWeights_apply cycleNodes_def)
      then have "\<exists>f \<in> set (subnetNodes merged). getID f < 0" by (rule fixed_if_neg)
      moreover have "getSubnet nw n = merged" using getSubnet_after_merge(1) [OF merge(3) True] .
      ultimately show ?thesis by (simp add: st'(2) cycleNodes_def)
    next
      case False
      with neg have "nodeWeight st n < 0" by (simp add: st' setWeights_apply cycleNodes_def)
      with inv have "\<exists>f \<in> set (cycleNodes (getSubnet (net st) n)). getID f < 0" by blast
      moreover have "getSubnet nw n = getSubnet (net st) n"
        using getSubnet_after_merge(2) [OF merge(3) False] .
      ultimately show ?thesis by (simp add: st'(2))
    qed
  qed
qed

lemma cycleSegments_negative_fixed:
  assumes "\<forall>n. nodeWeight st n < 0 \<longrightarrow>
             (\<exists>f \<in> set (cycleNodes (getSubnet (net st) n)). getID f < 0)"
    and "\<forall>sg \<in> set xs. 0 \<le> getWeight sg"
  shows "\<forall>n. nodeWeight (cycleSegments st xs) n < 0 \<longrightarrow>
           (\<exists>f \<in> set (cycleNodes (getSubnet (net (cycleSegments st xs)) n)). getID f < 0)"
  using assms
proof (induction xs arbitrary: st)
  case Nil
  then show ?case by simp
next
  case (Cons sg xs)
  from Cons.prems(2) have pos: "0 \<le> getWeight sg" and rest: "\<forall>sg \<in> set xs. 0 \<le> getWeight sg"
    by simp_all
  from Cons.IH [OF processSegment_negative_fixed [OF Cons.prems(1) pos] rest]
  show ?case by simp
qed

lemma affordable_merge_nonnegative:
  assumes "0 \<le> getWeight sg"
    and "\<not> getID (fst (getNodes sg)) < 0" and "\<not> getID (snd (getNodes sg)) < 0"
    and "node1Qualifies s sg" and "node2Qualifies s sg"
  shows "0 \<le> nodeWeight s (fst (getNodes sg)) + nodeWeight s (snd (getNodes sg)) - getWeight sg"
  using assms by (simp add: node1Qualifies_def node2Qualifies_def)

text \<open>
  C4. When every segment weight is nonnegative and every real node (identifier not negative)
  starts with a nonnegative weight, then after each candidate segment of a run of
  buildNetworkFromSegments, every Subnet whose nodes are all real holds nonnegative weights,
  and a node with a negative weight lies in a component that contains a fake node. A merge
  over a segment whose endpoints are both real and both pass the test yields a nonnegative
  weight wA + wB - wS. The Subnets are disjoint components on entry.
\<close>

theorem nonfixed_subnet_weight_nonnegative:
  assumes wf: "wellFormed (net st)"
    and segs: "\<forall>sg \<in> set segments. 0 \<le> getWeight sg"
    and init: "\<forall>n. \<not> getID n < 0 \<longrightarrow> 0 \<le> nodeWeight st n"
  shows "(\<forall>pre. prefix pre (sortedSegments segments) \<longrightarrow>
            (\<forall>sn \<in> set (subnets (net (cycleSegments st pre))).
               (\<forall>n \<in> set (cycleNodes sn). \<not> getID n < 0) \<longrightarrow>
               (\<forall>n \<in> set (cycleNodes sn). 0 \<le> nodeWeight (cycleSegments st pre) n))
          \<and> (\<forall>n. nodeWeight (cycleSegments st pre) n < 0 \<longrightarrow>
                 (\<exists>f \<in> set (cycleNodes (getSubnet (net (cycleSegments st pre)) n)). getID f < 0)))
       \<and> (\<forall>s sg. 0 \<le> getWeight sg
             \<and> \<not> getID (fst (getNodes sg)) < 0 \<and> \<not> getID (snd (getNodes sg)) < 0
             \<and> node1Qualifies s sg \<and> node2Qualifies s sg \<longrightarrow>
             0 \<le> nodeWeight s (fst (getNodes sg)) + nodeWeight s (snd (getNodes sg)) - getWeight sg)"
proof (rule conjI, rule allI, rule impI, rule conjI)
  fix pre assume pre: "prefix pre (sortedSegments segments)"
  define st' where "st' = cycleSegments st pre"
  have "set pre \<subseteq> set (sortedSegments segments)" using pre by (rule set_mono_prefix)
  with segs have pos: "\<forall>sg \<in> set pre. 0 \<le> getWeight sg" by (auto simp: sortedSegments_def)
  have start: "\<forall>n. nodeWeight st n < 0 \<longrightarrow>
                 (\<exists>f \<in> set (cycleNodes (getSubnet (net st) n)). getID f < 0)"
  proof (intro allI impI)
    fix n assume "nodeWeight st n < 0"
    with init have "getID n < 0" by force
    with getSubnet_member [of n "net st"]
    show "\<exists>f \<in> set (cycleNodes (getSubnet (net st) n)). getID f < 0"
      unfolding cycleNodes_def by blast
  qed
  have inv: "\<forall>n. nodeWeight st' n < 0 \<longrightarrow>
               (\<exists>f \<in> set (cycleNodes (getSubnet (net st') n)). getID f < 0)"
    unfolding st'_def using start pos by (rule cycleSegments_negative_fixed)
  have wf': "wellFormed (net st')" unfolding st'_def using wf by (rule cycleSegments_wellFormed)
  show "\<forall>n. nodeWeight (cycleSegments st pre) n < 0 \<longrightarrow>
          (\<exists>f \<in> set (cycleNodes (getSubnet (net (cycleSegments st pre)) n)). getID f < 0)"
    using inv unfolding st'_def .
  show "\<forall>sn \<in> set (subnets (net (cycleSegments st pre))).
          (\<forall>n \<in> set (cycleNodes sn). \<not> getID n < 0) \<longrightarrow>
          (\<forall>n \<in> set (cycleNodes sn). 0 \<le> nodeWeight (cycleSegments st pre) n)"
  proof (intro ballI impI)
    fix sn n
    assume sn: "sn \<in> set (subnets (net (cycleSegments st pre)))"
      and real: "\<forall>n \<in> set (cycleNodes sn). \<not> getID n < 0"
      and n: "n \<in> set (cycleNodes sn)"
    from sn n have "getSubnet (net st') n = sn"
      using getSubnet_of_listed [OF wf'] by (simp add: st'_def cycleNodes_def)
    with inv real have "\<not> nodeWeight st' n < 0" by metis
    then show "0 \<le> nodeWeight (cycleSegments st pre) n" by (simp add: st'_def)
  qed
next
  show "\<forall>s sg. 0 \<le> getWeight sg
             \<and> \<not> getID (fst (getNodes sg)) < 0 \<and> \<not> getID (snd (getNodes sg)) < 0
             \<and> node1Qualifies s sg \<and> node2Qualifies s sg \<longrightarrow>
             0 \<le> nodeWeight s (fst (getNodes sg)) + nodeWeight s (snd (getNodes sg)) - getWeight sg"
    using affordable_merge_nonnegative by blast
qed

theorem nonfixed_subnet_weight_nonnegative_witness:
  "wellFormed (net scenarioState)
   \<and> list_all (\<lambda>sg. 0 \<le> getWeight sg) [segmentCD, segmentFD, segmentBC, segmentAB]
   \<and> (\<forall>n. getID n < 0 \<or> 0 \<le> nodeWeight scenarioState n)
   \<and> list_all (\<lambda>sn. list_ex (\<lambda>n. getID n < 0) (cycleNodes sn)
         \<or> list_all (\<lambda>n. 0 \<le> nodeWeight (buildNetworkFromSegments
                   [segmentCD, segmentFD, segmentBC, segmentAB] scenarioState) n) (cycleNodes sn))
       (subnets (net (buildNetworkFromSegments
                   [segmentCD, segmentFD, segmentBC, segmentAB] scenarioState)))"
proof -
  have h2: "\<forall>sg \<in> set [segmentCD, segmentFD, segmentBC, segmentAB]. 0 \<le> getWeight sg"
    by (simp add: segmentAB_def segmentBC_def segmentCD_def segmentFD_def)
  have h3: "\<forall>n. \<not> getID n < 0 \<longrightarrow> 0 \<le> nodeWeight scenarioState n"
    by (simp add: scenarioState_def scenarioWeights_def)
  have "prefix (sortedSegments [segmentCD, segmentFD, segmentBC, segmentAB])
          (sortedSegments [segmentCD, segmentFD, segmentBC, segmentAB])" by simp
  with nonfixed_subnet_weight_nonnegative [OF scenario_wellFormed h2 h3]
  have "\<forall>sn \<in> set (subnets (net (cycleSegments scenarioState
                   (sortedSegments [segmentCD, segmentFD, segmentBC, segmentAB])))).
         (\<forall>n \<in> set (cycleNodes sn). \<not> getID n < 0) \<longrightarrow>
         (\<forall>n \<in> set (cycleNodes sn).
            0 \<le> nodeWeight (cycleSegments scenarioState
                   (sortedSegments [segmentCD, segmentFD, segmentBC, segmentAB])) n)"
    by blast
  then have "list_all (\<lambda>sn. list_ex (\<lambda>n. getID n < 0) (cycleNodes sn)
         \<or> list_all (\<lambda>n. 0 \<le> nodeWeight (buildNetworkFromSegments
                   [segmentCD, segmentFD, segmentBC, segmentAB] scenarioState) n) (cycleNodes sn))
       (subnets (net (buildNetworkFromSegments
                   [segmentCD, segmentFD, segmentBC, segmentAB] scenarioState)))"
    unfolding buildNetworkFromSegments_def list_all_iff list_ex_iff by blast
  moreover have "list_all (\<lambda>sg. 0 \<le> getWeight sg) [segmentCD, segmentFD, segmentBC, segmentAB]"
    using h2 unfolding list_all_iff .
  moreover have "\<forall>n. getID n < 0 \<or> 0 \<le> nodeWeight scenarioState n" using h3 by blast
  ultimately show ?thesis using scenario_wellFormed by blast
qed

subsection \<open>Discarded segments and the order of the pass\<close>










subsection \<open>Pruning\<close>

lemma keepSubnets_filter:
  "keepSubnets minimum sns kept = kept @ filter (\<lambda>sn. countNodes sn \<ge> minimum) sns"
  by (induction sns arbitrary: kept) auto



text \<open>
  C8. For one built network and thresholds m1 \<le> m2, pruning with m2 keeps at most as many
  Subnets as pruning with m1.
\<close>

theorem pruning_antitone_in_threshold:
  assumes "m1 \<le> m2"
  shows "length (subnets (eliminateSubnets m2 nw)) \<le> length (subnets (eliminateSubnets m1 nw))"
proof -
  have "length (filter (\<lambda>sn. countNodes sn \<ge> m2) xs)
      \<le> length (filter (\<lambda>sn. countNodes sn \<ge> m1) xs)" for xs
    using assms by (induction xs) auto
  then show ?thesis by (simp add: eliminateSubnets_def keepSubnets_filter)
qed

theorem pruning_antitone_in_threshold_witness:
  "(1::int) \<le> 2
   \<and> length (subnets (eliminateSubnets 2 (net scenarioBuilt))) = 1
   \<and> length (subnets (eliminateSubnets 1 (net scenarioBuilt))) = 2
   \<and> length (subnets (eliminateSubnets 2 (net scenarioBuilt)))
       \<le> length (subnets (eliminateSubnets 1 (net scenarioBuilt)))"
proof -
  have h: "(1::int) \<le> 2" by simp
  have "length (subnets (eliminateSubnets 2 (net scenarioBuilt))) = 1"
    and "length (subnets (eliminateSubnets 1 (net scenarioBuilt))) = 2"
    by (simp_all add: eliminateSubnets_def cycleSubnets_def countNodes_def cycleNodes_def
        scenarioBuilt_def scenario_simps)
  with h pruning_antitone_in_threshold [OF h, of "net scenarioBuilt"] show ?thesis by blast
qed

subsection \<open>Candidate generation\<close>

lemma kNearest_valid: "i \<in> set (kNearest metric matrix point k) \<Longrightarrow> i < length matrix"
proof -
  assume "i \<in> set (kNearest metric matrix point k)"
  then have "i \<in> set (sort_key (\<lambda>i. metric point (matrix ! i)) [0..<length matrix])"
    unfolding kNearest_def by (rule in_set_takeD)
  then show ?thesis by simp
qed

lemma kNearest_all:
  assumes "int (length matrix) \<le> k"
  shows "set (kNearest metric matrix point k) = {0..<length matrix}"
    and "length (kNearest metric matrix point k) = length matrix"
  using assms by (simp_all add: kNearest_def)

lemma selectRows_valid:
  "(\<And>i. i \<in> set nodeIndices \<Longrightarrow> i < length matrix)
     \<Longrightarrow> selectRows matrix nodeIndices = Inr (map (\<lambda>i. matrix ! i) nodeIndices)"
  by (simp add: selectRows_def)

lemma nearestNeighborSegments_valid:
  assumes "\<And>point i. i \<in> set (get_nearestNeighbors point) \<Longrightarrow> i < length matrix"
  shows "\<exists>segments. nearestNeighborSegments get_nearestNeighbors mkSegment matrix nodes = Inr segments"
proof (induction nodes)
  case Nil
  then show ?case by simp
next
  case (Cons node1 rest)
  then obtain others where
    "nearestNeighborSegments get_nearestNeighbors mkSegment matrix rest = Inr others" by blast
  moreover have "selectRows matrix (get_nearestNeighbors (getCoordinates node1))
      = Inr (map (\<lambda>i. matrix ! i) (get_nearestNeighbors (getCoordinates node1)))"
    using assms by (rule selectRows_valid)
  ultimately show ?case by simp
qed

text \<open>
  The loop itself has no guard: an index that is not a row of the matrix ends candidate
  generation with IndexError.
\<close>

lemma nearestNeighborSegments_invalid:
  assumes "n \<in> set nodes" and "i \<in> set (get_nearestNeighbors (getCoordinates n))"
    and "\<not> i < length matrix"
  shows "nearestNeighborSegments get_nearestNeighbors mkSegment matrix nodes = Inl IndexError"
  using assms(1)
proof (induction nodes)
  case Nil
  then show ?case by simp
next
  case (Cons node1 rest)
  show ?case
  proof (cases "\<forall>j \<in> set (get_nearestNeighbors (getCoordinates node1)). j < length matrix")
    case False
    then show ?thesis by (auto simp: selectRows_def)
  next
    case True
    with assms(2,3) have "n \<noteq> node1" by blast
    with Cons have "nearestNeighborSegments get_nearestNeighbors mkSegment matrix rest = Inl IndexError"
      by simp
    with True show ?thesis by (simp add: selectRows_def)
  qed
qed

lemma loadExistingNetworks_cases:
  "(\<exists>msg. loadExistingNetworks vs env computeDistance networkNodes nw = Inl (VariableError msg))
   \<or> (\<exists>segments nw'. loadExistingNetworks vs env computeDistance networkNodes nw = Inr (segments, nw'))"
  by (simp add: loadExistingNetworks_def Let_def)

lemma loadExistingNetworks_ok:
  "get_ExistingNetworks vs = [] \<or> (archiveExists env \<and> shapefileFound env)
     \<Longrightarrow> \<exists>segments nw'. loadExistingNetworks vs env computeDistance networkNodes nw = Inr (segments, nw')"
  by (auto simp: loadExistingNetworks_def Let_def)

lemma generateSegments_cases:
  "(\<exists>msg. generateSegments vs env nodes computeDistance = Inl (VariableError msg)
          \<and> loadExistingNetworks vs env computeDistance (factory_getNodes nodes)
               (Network (factory_getNodes nodes)) = Inl (VariableError msg))
   \<or> (\<exists>segments nw. generateSegments vs env nodes computeDistance = Inr (segments, nw))"
proof -
  define networkNodes where "networkNodes = factory_getNodes nodes"
  define metric where "metric = (if computeDistance = computeEuclideanDistance then planarMetric env
                            else arcMetric env 6371010)"
  obtain others where others:
    "nearestNeighborSegments
       (\<lambda>point. kNearest metric (map getCoordinates networkNodes) point
                   (get_MaximumNearestNeighborCount vs))
       (\<lambda>c1 c2. getSegment env computeDistance c1 c2 False)
       (map getCoordinates networkNodes) networkNodes = Inr others"
    using nearestNeighborSegments_valid [of
       "\<lambda>point. kNearest metric (map getCoordinates networkNodes) point
                   (get_MaximumNearestNeighborCount vs)"
       "map getCoordinates networkNodes"]
      kNearest_valid by blast
  from loadExistingNetworks_cases [of vs env computeDistance networkNodes "Network networkNodes"]
  show ?thesis
  proof
    assume "\<exists>msg. loadExistingNetworks vs env computeDistance networkNodes (Network networkNodes)
              = Inl (VariableError msg)"
    then show ?thesis
      by (auto simp: generateSegments_def Let_def networkNodes_def)
  next
    assume "\<exists>segments nw'. loadExistingNetworks vs env computeDistance networkNodes (Network networkNodes)
              = Inr (segments, nw')"
    then obtain segments nw' where
      "loadExistingNetworks vs env computeDistance networkNodes (Network networkNodes)
         = Inr (segments, nw')"
      by blast
    with others have "generateSegments vs env nodes computeDistance = Inr (segments @ others, nw')"
      by (simp add: generateSegments_def Let_def networkNodes_def metric_def)
    then show ?thesis by blast
  qed
qed

text \<open>
  C9. When the configured maximum nearest neighbor count exceeds the number of distinct
  nodes, the nearest-neighbour query yields exactly the indices of the available nodes, each
  a row of the node coordinate matrix, and generateSegments does not fail on an index; it
  returns its candidates whenever the existing network, if one is configured, can be loaded.
\<close>

theorem nearest_neighbors_beyond_node_count:
  assumes "int (length (factory_getNodes nodes)) < get_MaximumNearestNeighborCount vs"
  shows "(\<forall>metric point.
            set (kNearest metric (map getCoordinates (factory_getNodes nodes)) point
                   (get_MaximumNearestNeighborCount vs)) = {0..<length (factory_getNodes nodes)})
       \<and> generateSegments vs env nodes computeDistance \<noteq> Inl IndexError
       \<and> (get_ExistingNetworks vs = [] \<or> (archiveExists env \<and> shapefileFound env) \<longrightarrow>
            (\<exists>segments nw. generateSegments vs env nodes computeDistance = Inr (segments, nw)))"
proof (intro conjI)
  show "\<forall>metric point.
            set (kNearest metric (map getCoordinates (factory_getNodes nodes)) point
                   (get_MaximumNearestNeighborCount vs)) = {0..<length (factory_getNodes nodes)}"
    using assms kNearest_all(1) [of "map getCoordinates (factory_getNodes nodes)"
        "get_MaximumNearestNeighborCount vs"]
    by simp
  show "generateSegments vs env nodes computeDistance \<noteq> Inl IndexError"
    using generateSegments_cases [of vs env nodes computeDistance] by auto
  show "get_ExistingNetworks vs = [] \<or> (archiveExists env \<and> shapefileFound env) \<longrightarrow>
            (\<exists>segments nw. generateSegments vs env nodes computeDistance = Inr (segments, nw))"
  proof
    assume "get_ExistingNetworks vs = [] \<or> (archiveExists env \<and> shapefileFound env)"
    from loadExistingNetworks_ok [OF this, of computeDistance "factory_getNodes nodes"
        "Network (factory_getNodes nodes)"]
      generateSegments_cases [of vs env nodes computeDistance]
    show "\<exists>segments nw. generateSegments vs env nodes computeDistance = Inr (segments, nw)"
      by auto
  qed
qed

theorem nearest_neighbors_beyond_node_count_witness:
  "int (length (factory_getNodes [nodeA, nodeB, nodeD])) < get_MaximumNearestNeighborCount scenarioStore
   \<and> get_ExistingNetworks scenarioStore = []
   \<and> (\<forall>metric point.
         set (kNearest metric (map getCoordinates (factory_getNodes [nodeA, nodeB, nodeD])) point
                (get_MaximumNearestNeighborCount scenarioStore))
           = {0..<length (factory_getNodes [nodeA, nodeB, nodeD])})
   \<and> (\<exists>segments nw. generateSegments scenarioStore scenarioEnvironment [nodeA, nodeB, nodeD]
                        computeSphericalDistance = Inr (segments, nw))"
proof -
  have h: "int (length (factory_getNodes [nodeA, nodeB, nodeD]))
             < get_MaximumNearestNeighborCount scenarioStore"
    by (simp add: factory_getNodes_def get_MaximumNearestNeighborCount_def scenarioStore_def
        nodeA_def nodeB_def nodeD_def)
  have e: "get_ExistingNetworks scenarioStore = []"
    by (simp add: get_ExistingNetworks_def scenarioStore_def)
  from nearest_neighbors_beyond_node_count [OF h, of scenarioEnvironment computeSphericalDistance]
    h e
  show ?thesis by blast
qed

text \<open>
  C10. With no demand node and no existing network configured, generateSegments returns an
  empty candidate list and buildNetworkFromNodes returns an empty network; neither raises.
\<close>

theorem zero_nodes_build_empty:
  assumes "get_ExistingNetworks vs = []"
  shows "generateSegments vs env [] computeDistance = Inr ([], \<lparr>subnets = []\<rparr>)
       \<and> buildNetworkFromNodes vs env weights [] proj4
           = Inr \<lparr>nodeWeight = weights, net = \<lparr>subnets = []\<rparr>, addSegmentCalls = []\<rparr>"
proof -
  have g: "generateSegments vs env [] computeDistance = Inr ([], \<lparr>subnets = []\<rparr>)" for computeDistance
    using assms
    by (simp add: generateSegments_def loadExistingNetworks_def factory_getNodes_def Network_def)
  then show ?thesis
    by (simp add: buildNetworkFromNodes_def buildNetworkFromSegments_def sortedSegments_def
        eliminateSubnets_def cycleSubnets_def)
qed

theorem zero_nodes_build_empty_witness:
  "get_ExistingNetworks scenarioStore = []
   \<and> generateSegments scenarioStore scenarioEnvironment [] computeEuclideanDistance
       = Inr ([], \<lparr>subnets = []\<rparr>)
   \<and> buildNetworkFromNodes scenarioStore scenarioEnvironment scenarioWeights [] ''+units=m''
       = Inr \<lparr>nodeWeight = scenarioWeights, net = \<lparr>subnets = []\<rparr>, addSegmentCalls = []\<rparr>"
proof -
  have e: "get_ExistingNetworks scenarioStore = []"
    by (simp add: get_ExistingNetworks_def scenarioStore_def)
  from zero_nodes_build_empty [OF e, of scenarioEnvironment computeEuclideanDistance
      scenarioWeights "''+units=m''"] e
  show ?thesis by blast
qed

subsection \<open>Networks built from demand nodes only\<close>

text \<open>
  Without an existing network the merge loop starts from singleton Subnets of distinct
  nodes: the Subnets are disjoint and each holds one weight, so the network that
  buildNetworkFromNodes returns is homogeneous.
\<close>

lemma dedupNodes_coordinates:
  "distinct (map getCoordinates (dedupNodes seen ns))
   \<and> set (map getCoordinates (dedupNodes seen ns)) \<inter> set seen = {}"
proof (induction ns arbitrary: seen)
  case Nil
  then show ?case by simp
next
  case (Cons n ns)
  show ?case
  proof (cases "getCoordinates n \<in> set seen")
    case True
    with Cons [of seen] show ?thesis by simp
  next
    case False
    with Cons [of "getCoordinates n # seen"] show ?thesis by auto
  qed
qed

lemma factory_getNodes_distinct: "distinct (factory_getNodes nodes)"
  using dedupNodes_coordinates [of "[]" nodes] unfolding factory_getNodes_def
  by (simp add: distinct_map)

lemma Network_wellFormed: "distinct ns \<Longrightarrow> wellFormed (Network ns)"
proof -
  have "concat (map subnetNodes (map (\<lambda>n. \<lparr>subnetNodes = [n], subnetSegments = []\<rparr>) ns)) = ns"
    by (induction ns) simp_all
  then show "distinct ns \<Longrightarrow> wellFormed (Network ns)"
    by (simp add: wellFormed_def Network_def)
qed

lemma Network_homogeneous:
  "homogeneous \<lparr>nodeWeight = w, net = Network ns, addSegmentCalls = cs\<rparr>"
  by (auto simp: homogeneous_def Network_def cycleNodes_def)

lemma generateSegments_no_existing:
  assumes "get_ExistingNetworks vs = []"
    and "generateSegments vs env nodes computeDistance = Inr (segments, nw)"
  shows "nw = Network (factory_getNodes nodes)"
  using assms
  by (auto simp: generateSegments_def loadExistingNetworks_def Let_def split: sum.splits)

lemma eliminateSubnets_homogeneous:
  assumes "homogeneous st"
  shows "homogeneous (st\<lparr>net := eliminateSubnets minimum (net st)\<rparr>)"
proof -
  have "set (subnets (eliminateSubnets minimum (net st))) \<subseteq> set (subnets (net st))"
    by (auto simp: eliminateSubnets_def keepSubnets_filter cycleSubnets_def)
  with assms show ?thesis unfolding homogeneous_def by auto
qed

lemma buildNetworkFromNodes_homogeneous:
  assumes "get_ExistingNetworks vs = []"
    and "buildNetworkFromNodes vs env weights nodes proj4 = Inr result"
  shows "homogeneous result"
proof -
  from assms(2) obtain segments nw where
    g: "generateSegments vs env nodes (selectDistance proj4) = Inr (segments, nw)"
    and r: "result = (buildNetworkFromSegments segments
                \<lparr>nodeWeight = weights, net = nw, addSegmentCalls = []\<rparr>)
              \<lparr>net := eliminateSubnets (get_MinimumNodeCountPerSubnetwork vs)
                 (net (buildNetworkFromSegments segments
                    \<lparr>nodeWeight = weights, net = nw, addSegmentCalls = []\<rparr>))\<rparr>"
    by (auto simp: buildNetworkFromNodes_def Let_def split: sum.splits prod.splits)
  have nw: "nw = Network (factory_getNodes nodes)"
    using assms(1) g by (rule generateSegments_no_existing)
  have "wellFormed (net \<lparr>nodeWeight = weights, net = nw, addSegmentCalls = []\<rparr>)"
    by (simp add: nw Network_wellFormed factory_getNodes_distinct)
  moreover have "homogeneous \<lparr>nodeWeight = weights, net = nw, addSegmentCalls = []\<rparr>"
    unfolding nw by (rule Network_homogeneous)
  ultimately have "homogeneous (buildNetworkFromSegments segments
                \<lparr>nodeWeight = weights, net = nw, addSegmentCalls = []\<rparr>)"
    unfolding buildNetworkFromSegments_def by (rule cycleSegments_homogeneous)
  then show ?thesis unfolding r by (rule eliminateSubnets_homogeneous)
qed


end
